theory Spec2Isabelle
  imports Main
begin

section \<open>The page cache of \<open>src/server/cache.js\<close>\<close>

text \<open>
  The module keeps four variables: \<open>cache\<close> (path to rendered html), \<open>byId\<close> (content id
  to last modified stamp and set of paths), \<open>noCache\<close> (path to the timer that ends its
  suppression) and \<open>instances\<close> (addresses of the service's pods), plus the token
  \<open>kubeToken\<close>. Each exported function is modelled as a function on a record of these
  variables. What a function sends over the network is returned beside the new state, and
  what the network answers is an argument.

  The three objects are created by \<open>{}\<close>. Each is modelled as the finite map of its own
  properties, and a read \<open>obj[key]\<close> that finds no own property finds the member that
  the object inherits from \<open>Object.prototype\<close> when \<open>key\<close> is the name of one
  (\<open>constructor\<close>, \<open>toString\<close>, \<open>__proto__\<close>, ...): a function or an object, which is
  truthy and has no \<open>paths\<close> and no \<open>modified\<close>. This is what \<open>add\<close> and \<open>purge\<close>, which
  take any id and any path, read in \<open>byId\<close>, \<open>noCache\<close> and \<open>cache\<close>. The function
  \<open>purgeCache\<close> is private to the module: \<open>middleware\<close> calls it with the path of a
  request, which begins with a slash and is no such name, and \<open>purge\<close> calls it without
  \<open>preventCache\<close>, so that its assignment to \<open>noCache\<close> creates an own property.
\<close>

subsection \<open>JavaScript values\<close>

text \<open>
  The html, the modified stamp and the query parameters are arbitrary JavaScript values
  as far as the module is concerned: it tests them for truthiness and compares them with
  \<open>===\<close>. Numbers are integers or \<open>NaN\<close> here; an object is its reference.
\<close>

datatype jsval =
    JUndefined
  | JNull
  | JBool bool
  | JNum int
  | JNaN
  | JStr string
  | JObj nat

fun truthy :: "jsval \<Rightarrow> bool" where
  "truthy JUndefined = False"
| "truthy JNull = False"
| "truthy (JBool b) = b"
| "truthy (JNum n) = (n \<noteq> 0)"
| "truthy JNaN = False"
| "truthy (JStr s) = (s \<noteq> [])"
| "truthy (JObj r) = True"

definition strict_eq :: "jsval \<Rightarrow> jsval \<Rightarrow> bool" where
  \<comment> \<open>\<open>a === b\<close>: \<open>NaN\<close> is not equal to itself.\<close>
  "strict_eq a b = (a = b \<and> a \<noteq> JNaN)"

subsection \<open>Strings: \<open>split\<close>, \<open>join\<close> and the cumulative prefixes of a path\<close>

fun split_sep :: "char \<Rightarrow> string \<Rightarrow> string list" where
  \<comment> \<open>\<open>s.split(c)\<close>: the empty string gives one empty piece.\<close>
  "split_sep c [] = [[]]"
| "split_sep c (x # xs) =
     (if x = c then [] # split_sep c xs
      else (case split_sep c xs of
              [] \<Rightarrow> [[x]]
            | y # ys \<Rightarrow> (x # y) # ys))"

fun join_sep :: "char \<Rightarrow> string list \<Rightarrow> string" where
  \<comment> \<open>\<open>pieces.join(c)\<close>\<close>
  "join_sep c [] = []"
| "join_sep c [x] = x"
| "join_sep c (x # y # ys) = x @ c # join_sep c (y # ys)"

definition segments :: "string \<Rightarrow> string list" where
  \<comment> \<open>lines 69-71: \<open>path.split('/').map((segment, i, segments) =>
      segments.slice(0, i).concat([segment]).join('/'))\<close>\<close>
  "segments path =
     (let segs = split_sep CHR ''/'' path
      in map (\<lambda>i. join_sep CHR ''/'' (take i segs @ [segs ! i])) [0..<length segs])"

definition set_add :: "'a \<Rightarrow> 'a list \<Rightarrow> 'a list" where
  \<comment> \<open>\<open>Set.prototype.add\<close>: a \<open>Set\<close> keeps insertion order and no duplicates.\<close>
  "set_add x xs = (if x \<in> set xs then xs else xs @ [x])"

subsection \<open>The module's state\<close>

record content =
  paths :: "string list"
  modified :: jsval

record state =
  cache :: "string \<rightharpoonup> jsval"
  byId :: "string \<rightharpoonup> content"
  noCache :: "string \<rightharpoonup> nat"
  timers :: "nat \<rightharpoonup> string \<times> int"
  next_timer :: nat
  instances :: "string list"
  kubeToken :: "string option"
  edit_cache_delay :: "int option"

text \<open>
  \<open>noCache\<close> maps a path to the handle that \<open>setTimeout\<close> returned; \<open>timers\<close> holds the
  pending timers (handle to the path whose suppression it ends and the delay in
  milliseconds it was set with); \<open>next_timer\<close> is the handle the next \<open>setTimeout\<close>
  returns. \<open>edit_cache_delay\<close> is \<open>parseInt(process.env.EDIT_CACHE_DELAY, 10)\<close>, with
  \<open>None\<close> for \<open>NaN\<close>.
\<close>

definition init :: "int option \<Rightarrow> state" where
  \<comment> \<open>lines 10-14\<close>
  "init env =
     \<lparr>cache = Map.empty, byId = Map.empty, noCache = Map.empty, timers = Map.empty,
      next_timer = 0, instances = [], kubeToken = None, edit_cache_delay = env\<rparr>"

definition noCacheDelay :: "state \<Rightarrow> int" where
  \<comment> \<open>line 18: \<open>parseInt(process.env.EDIT_CACHE_DELAY, 10) || 60 * 60\<close>\<close>
  "noCacheDelay s =
     (case edit_cache_delay s of
        None \<Rightarrow> 60 * 60
      | Some n \<Rightarrow> if n \<noteq> 0 then n else 60 * 60)"

definition inherited :: "string \<Rightarrow> bool" where
  \<comment> \<open>the names of the members of \<open>Object.prototype\<close>, which every object made by \<open>{}\<close>
      inherits\<close>
  "inherited key =
     (key \<in> set [''constructor'', ''__defineGetter__'', ''__defineSetter__'',
                 ''hasOwnProperty'', ''__lookupGetter__'', ''__lookupSetter__'',
                 ''isPrototypeOf'', ''propertyIsEnumerable'', ''toString'', ''valueOf'',
                 ''__proto__'', ''toLocaleString''])"

datatype js_error = TypeError

definition cache_get :: "state \<Rightarrow> string \<Rightarrow> jsval" where
  \<comment> \<open>\<open>cache[path]\<close>: \<open>undefined\<close> when there is no such property\<close>
  "cache_get s path = (case cache s path of None \<Rightarrow> JUndefined | Some v \<Rightarrow> v)"

definition cache_truthy :: "state \<Rightarrow> string \<Rightarrow> bool" where
  \<comment> \<open>\<open>cache[url]\<close> is truthy (line 76): the own property when there is one, an inherited
      member otherwise\<close>
  "cache_truthy s u = (case cache s u of None \<Rightarrow> inherited u | Some v \<Rightarrow> truthy v)"

definition suppressed :: "state \<Rightarrow> string \<Rightarrow> bool" where
  \<comment> \<open>\<open>noCache[path]\<close> is truthy (line 52): an own property holds a timer object, and an
      inherited member is truthy too\<close>
  "suppressed s path = (noCache s path \<noteq> None \<or> inherited path)"

definition expire :: "nat \<Rightarrow> state \<Rightarrow> state" where
  \<comment> \<open>line 168, the timer's callback \<open>() => delete noCache[path]\<close>, run when the pending
      timer \<open>h\<close> fires\<close>
  "expire h s =
     (case timers s h of
        None \<Rightarrow> s
      | Some (path, ms) \<Rightarrow>
          s\<lparr>noCache := (noCache s)(path := None), timers := (timers s)(h := None)\<rparr>)"

subsection \<open>The network\<close>

record request =
  url :: string
  qs :: "(string \<times> int) list"

datatype reply =
    ReqError string
  | Response int jsval

datatype err =
    Transport string
  | PurgeStatus string int
  | UpdateStatus int

text \<open>
  A request is answered once, by a transport error or by a response with a status code
  and a body. \<open>PurgeStatus url code\<close> is the \<open>Error\<close> of line 153 and \<open>UpdateStatus code\<close>
  the one of line 124.
\<close>

definition each_cb :: "err option list \<Rightarrow> err option list" where
  \<comment> \<open>\<open>async.each\<close>: the final callback is called once, with the first error an iteratee
      reports, or with \<open>null\<close> when every iteratee has finished without one. The requests
      are in flight together, so any of the errors can be the first: the list holds the
      possible arguments of that one call.\<close>
  "each_cb results =
     (if filter (\<lambda>r. r \<noteq> None) results = [] then [None]
      else filter (\<lambda>r. r \<noteq> None) results)"

definition peer_request :: "string \<Rightarrow> jsval \<Rightarrow> string \<Rightarrow> request" where
  \<comment> \<open>lines 138-148\<close>
  "peer_request path preventCache instance =
     \<lparr>url = ''http://'' @ instance @ '':3000'' @ path,
      qs = [(''purge'', 1)] @ (if truthy preventCache then [(''edit'', 1)] else [])\<rparr>"

definition peer_result :: "request \<Rightarrow> reply \<Rightarrow> err option" where
  \<comment> \<open>lines 149-160: what the iteratee passes to its callback\<close>
  "peer_result rq r =
     (case r of
        ReqError e \<Rightarrow> Some (Transport e)
      | Response statusCode body \<Rightarrow>
          if statusCode \<noteq> 200 then Some (PurgeStatus (url rq) statusCode) else None)"

subsection \<open>\<open>purgeCache\<close>\<close>

record purge_out =
  st :: state
  sent :: "request list"
  cb_args :: "err option list"

text \<open>
  \<open>st\<close> is the state when \<open>purgeCache\<close> returns, \<open>sent\<close> the requests it has issued and
  \<open>cb_args\<close> the possible arguments of the one call of \<open>cb\<close> (\<open>None\<close> for \<open>null\<close>); a caller
  that passes no \<open>cb\<close> ignores it.
\<close>

definition purgeCache ::
  "string \<Rightarrow> jsval \<Rightarrow> jsval \<Rightarrow> (request \<Rightarrow> reply) \<Rightarrow> state \<Rightarrow> purge_out" where
  \<comment> \<open>lines 133-175\<close>
  "purgeCache path preventCache recurse net s =
     (if truthy recurse then
        (let reqs = map (peer_request path preventCache) (instances s)
         in \<lparr>st = s, sent = reqs,
             cb_args = each_cb (map (\<lambda>rq. peer_result rq (net rq)) reqs)\<rparr>)
      else
        (let s1 =
           (if truthy preventCache then
              (let pending = (case noCache s path of
                                None \<Rightarrow> timers s
                              | Some existingTimer \<Rightarrow> (timers s)(existingTimer := None));
                   h = next_timer s
               in s\<lparr>noCache := (noCache s)(path \<mapsto> h),
                     timers := pending(h \<mapsto> (path, noCacheDelay s * 1000)),
                     next_timer := Suc h\<rparr>)
            else s)
         in \<lparr>st = s1\<lparr>cache := (cache s1)(path := None)\<rparr>, sent = [], cb_args = [None]\<rparr>))"

subsection \<open>\<open>updateInstances\<close>\<close>

datatype api_reply =
    ApiError string
  | ApiResponse int "string list option"

text \<open>
  The reply of the orchestration API: a transport error, or a status code with the parsed
  body, given as the \<open>podIP\<close>s of \<open>body.items\<close>, or \<open>None\<close> for a body that has no such
  array, where line 128 throws.
\<close>

datatype update_cb =
    CbErr err
  | CbOk "string list"
  | Thrown

definition updateInstances :: "string \<Rightarrow> (string \<Rightarrow> api_reply) \<Rightarrow> state \<Rightarrow> state \<times> update_cb" where
  \<comment> \<open>lines 107-131\<close>
  "updateInstances token api s =
     (case api token of
        ApiError e \<Rightarrow> (s, CbErr (Transport e))
      | ApiResponse statusCode body \<Rightarrow>
          if statusCode \<noteq> 200 then (s, CbErr (UpdateStatus statusCode))
          else (case body of
                  None \<Rightarrow> (s, Thrown)
                | Some ips \<Rightarrow> (s\<lparr>instances := ips\<rparr>, CbOk ips)))"

subsection \<open>\<open>add\<close> and \<open>purge\<close>\<close>

definition add ::
  "string \<Rightarrow> jsval \<Rightarrow> string \<Rightarrow> jsval \<Rightarrow> state \<Rightarrow> state \<times> js_error option" where
  \<comment> \<open>lines 49-59. The result is the state when the call ends and the error it throws,
      if any. When \<open>byId[id]\<close> finds an inherited member, \<open>data.paths\<close> is \<open>undefined\<close>
      and line 56 throws, after line 54 has written the cache.\<close>
  "add id' modified' path html s =
     (if \<not> truthy modified' then (s, None)
      else if suppressed s path then (s, None)
      else
        (let s1 = s\<lparr>cache := (cache s)(path \<mapsto> html)\<rparr>
         in case byId s id' of
              Some d \<Rightarrow>
                (s1\<lparr>byId := (byId s)(id' \<mapsto> d\<lparr>paths := set_add path (paths d)\<rparr>)\<rparr>, None)
            | None \<Rightarrow>
                if inherited id' then (s1, Some TypeError)
                else (s1\<lparr>byId := (byId s)
                             (id' \<mapsto> \<lparr>paths = set_add path [], modified = modified'\<rparr>)\<rparr>,
                      None)))"

definition purge_url ::
  "(request \<Rightarrow> reply) \<Rightarrow> string \<Rightarrow> state \<times> request list \<Rightarrow> state \<times> request list" where
  \<comment> \<open>lines 75-79, the body of \<open>segments.forEach\<close>; the second component collects what
      the calls of \<open>purgeCache\<close> send\<close>
  "purge_url net u acc =
     (case acc of (s, out) \<Rightarrow>
        if \<not> cache_truthy s u then (s, out)
        else (let r = purgeCache u JUndefined JUndefined net s
              in (st r, out @ sent r)))"

definition purge ::
  "string \<Rightarrow> jsval \<Rightarrow> (request \<Rightarrow> reply) \<Rightarrow> state \<Rightarrow>
     state \<times> request list \<times> js_error option" where
  \<comment> \<open>lines 62-81. The result is the state when the call ends, what it has sent and the
      error it throws, if any. When \<open>byId[id]\<close> finds an inherited member, \<open>data\<close> is
      truthy, \<open>data.modified\<close> is \<open>undefined\<close> and, unless \<open>newModified\<close> is \<open>undefined\<close>
      too, line 68 throws because \<open>data.paths\<close> is \<open>undefined\<close>.\<close>
  "purge id' newModified net s =
     (case byId s id' of
        None \<Rightarrow>
          if \<not> inherited id' then (s, [], None)
          else if strict_eq JUndefined newModified then (s, [], None)
          else (s, [], Some TypeError)
      | Some data \<Rightarrow>
          if strict_eq (modified data) newModified then (s, [], None)
          else (case fold (\<lambda>path. fold (purge_url net) (segments path)) (paths data) (s, []) of
                  (s', out) \<Rightarrow> (s', out, None)))"

subsection \<open>\<open>middleware\<close>\<close>

record req =
  path :: string
  q_purge :: jsval
  q_edit :: jsval
  q_recurse :: jsval

datatype response =
    Send500 err
  | EndOK
  | EndHit jsval
  | Next

record mw_out =
  mw_st :: state
  mw_sent :: "request list"
  mw_res :: "(response \<times> bool) list"

text \<open>
  \<open>mw_res\<close> lists the possible outcomes of the request: the response, and whether a
  refresh of the instance list was started (line 32). \<open>Next\<close> is the call of \<open>next()\<close>,
  which hands the request to the render pipeline.
\<close>

definition middleware :: "req \<Rightarrow> (request \<Rightarrow> reply) \<Rightarrow> state \<Rightarrow> mw_out" where
  \<comment> \<open>lines 23-47\<close>
  "middleware rq net s =
     (let cachedHTML = cache_get s (path rq)
      in if truthy (q_purge rq) \<or> truthy (q_edit rq) then
           (let r = purgeCache (path rq) (q_edit rq) (q_recurse rq) net s
            in \<lparr>mw_st = st r, mw_sent = sent r,
                mw_res = map (\<lambda>a. case a of
                                     Some e \<Rightarrow>
                                       (Send500 e,
                                        (case kubeToken s of None \<Rightarrow> False | Some t \<Rightarrow> t \<noteq> []))
                                   | None \<Rightarrow> (EndOK, False))
                             (cb_args r)\<rparr>)
         else if truthy cachedHTML then
           \<lparr>mw_st = s, mw_sent = [], mw_res = [(EndHit cachedHTML, False)]\<rparr>
         else
           \<lparr>mw_st = s, mw_sent = [], mw_res = [(Next, False)]\<rparr>)"

subsection \<open>Vocabulary of the properties\<close>

fun peer_ok :: "reply \<Rightarrow> bool" where
  \<comment> \<open>the peer answered, with status 200\<close>
  "peer_ok (ReqError e) = False"
| "peer_ok (Response statusCode body) = (statusCode = 200)"

definition drop_truthy :: "string set \<Rightarrow> state \<Rightarrow> state" where
  \<comment> \<open>the state without the cache entries of the paths in \<open>U\<close> whose value is truthy\<close>
  "drop_truthy U s =
     s\<lparr>cache := (\<lambda>k. if k \<in> U \<and> truthy (cache_get s k) then None else cache s k)\<rparr>"

definition timers_wf :: "state \<Rightarrow> bool" where
  \<comment> \<open>the pending timers are exactly the timers that \<open>noCache\<close> holds, one for each
      suppressed path, and each was returned by an earlier \<open>setTimeout\<close>\<close>
  "timers_wf s =
     ((\<forall>h. next_timer s \<le> h \<longrightarrow> timers s h = None) \<and>
      (\<forall>h p ms. timers s h = Some (p, ms) \<longrightarrow> noCache s p = Some h) \<and>
      (\<forall>p h. noCache s p = Some h \<longrightarrow> (\<exists>ms. timers s h = Some (p, ms))))"

subsection \<open>Example states and networks\<close>

definition all_ok :: "request \<Rightarrow> reply" where
  "all_ok rq = Response 200 (JStr ''OK'')"

definition one_down :: "request \<Rightarrow> reply" where
  "one_down rq =
     (if url rq = ''http://10.0.0.2:3000/page'' then Response 503 (JStr ''unavailable'')
      else Response 200 (JStr ''OK''))"

definition page_state :: state where
  \<comment> \<open>one cached page, no peers\<close>
  "page_state = (init None)\<lparr>cache := [''/page'' \<mapsto> JStr ''<p>hello</p>'']\<rparr>"

definition fleet_state :: state where
  \<comment> \<open>one cached page, three peers\<close>
  "fleet_state = page_state\<lparr>instances := [''10.0.0.1'', ''10.0.0.2'', ''10.0.0.3'']\<rparr>"

definition doc_state :: state where
  \<comment> \<open>after \<open>add('doc', 'v1', p, '<p>x</p>')\<close> for \<open>p\<close> = \<open>/a\<close>, \<open>/a/b\<close>, \<open>/a/b/c\<close>, with peers\<close>
  "doc_state =
     fst (add ''doc'' (JStr ''v1'') ''/a/b/c'' (JStr ''<p>x</p>'')
       (fst (add ''doc'' (JStr ''v1'') ''/a/b'' (JStr ''<p>x</p>'')
         (fst (add ''doc'' (JStr ''v1'') ''/a'' (JStr ''<p>x</p>'')
           ((init None)\<lparr>instances := [''10.0.0.1'', ''10.0.0.2'']\<rparr>))))))"

definition blank_state :: state where
  \<comment> \<open>as \<open>doc_state\<close>, but the page at \<open>/a\<close> rendered to the empty string\<close>
  "blank_state =
     fst (add ''doc'' (JStr ''v1'') ''/a/b/c'' (JStr ''<p>x</p>'')
       (fst (add ''doc'' (JStr ''v1'') ''/a/b'' (JStr ''<p>x</p>'')
         (fst (add ''doc'' (JStr ''v1'') ''/a'' (JStr [])
           ((init None)\<lparr>instances := [''10.0.0.1'', ''10.0.0.2'']\<rparr>))))))"

definition first_state :: state where
  \<comment> \<open>after \<open>add('doc', 'v1', '/a', '<p>v1</p>')\<close>\<close>
  "first_state = fst (add ''doc'' (JStr ''v1'') ''/a'' (JStr ''<p>v1</p>'') (init None))"

definition stale_state :: state where
  \<comment> \<open>the document changes to \<open>v2\<close>: after \<open>purge('doc', 'v2')\<close> and then
      \<open>add('doc', 'v2', '/a', '<p>v2</p>')\<close>, the page rendered from \<open>v2\<close>\<close>
  "stale_state =
     fst (add ''doc'' (JStr ''v2'') ''/a'' (JStr ''<p>v2</p>'')
       (fst (purge ''doc'' (JStr ''v2'') all_ok first_state)))"

definition armed_state :: state where
  \<comment> \<open>\<open>fleet_state\<close> after a local purge of \<open>/page\<close> that suppressed it\<close>
  "armed_state = st (purgeCache ''/page'' (JStr ''1'') JUndefined all_ok fleet_state)"

definition edit_req :: req where
  \<comment> \<open>\<open>GET /page?edit=1\<close>\<close>
  "edit_req =
     \<lparr>path = ''/page'', q_purge = JUndefined, q_edit = JStr ''1'', q_recurse = JUndefined\<rparr>"

definition recurse_req :: req where
  \<comment> \<open>\<open>GET /page?purge=1&recurse=1\<close>\<close>
  "recurse_req =
     \<lparr>path = ''/page'', q_purge = JStr ''1'', q_edit = JUndefined, q_recurse = JStr ''1''\<rparr>"

definition plain_req :: req where
  \<comment> \<open>\<open>GET /page\<close>\<close>
  "plain_req =
     \<lparr>path = ''/page'', q_purge = JUndefined, q_edit = JUndefined, q_recurse = JUndefined\<rparr>"

definition api_ok :: "string \<Rightarrow> api_reply" where
  "api_ok token = ApiResponse 200 (Some [''10.0.0.7'', ''10.0.0.8''])"

definition api_down :: "string \<Rightarrow> api_reply" where
  "api_down token = ApiResponse 503 None"

definition api_unreachable :: "string \<Rightarrow> api_reply" where
  "api_unreachable token = ApiError ''ECONNREFUSED''"

section \<open>Properties\<close>

subsection \<open>Strings\<close>

lemma split_sep_not_Nil: "split_sep c s \<noteq> []"
  by (induction s) (auto split: list.splits)

lemma join_split: "join_sep c (split_sep c s) = s"
proof (induction s)
  case Nil
  show ?case by simp
next
  case (Cons x xs)
  obtain y ys where sp: "split_sep c xs = y # ys"
    using split_sep_not_Nil [of c xs] by (cases "split_sep c xs") auto
  show ?case
  proof (cases "x = c")
    case True
    with Cons sp show ?thesis by simp
  next
    case False
    with Cons sp show ?thesis by (cases ys) auto
  qed
qed

lemma segments_example: "segments ''/a/b/c'' = ['''', ''/a'', ''/a/b'', ''/a/b/c'']"
  by (simp add: segments_def upt_rec)

lemma path_in_segments: "p \<in> set (segments p)"
proof -
  let ?segs = "split_sep CHR ''/'' p"
  let ?n = "length ?segs - 1"
  have ne: "?segs \<noteq> []" by (rule split_sep_not_Nil)
  then have "take ?n ?segs @ [?segs ! ?n] = ?segs"
    by (metis append_butlast_last_id butlast_conv_take last_conv_nth)
  then have "join_sep CHR ''/'' (take ?n ?segs @ [?segs ! ?n]) = p"
    by (simp add: join_split)
  moreover have "?n \<in> set [0..<length ?segs]"
    using ne by simp
  ultimately show ?thesis
    unfolding segments_def Let_def set_map by (metis (no_types, lifting) imageI)
qed

subsection \<open>The loop of \<open>purge\<close>\<close>

lemma purge_url_step: "purge_url net u (s, out) = (drop_truthy {u} s, out)"
proof (cases "cache s u")
  case None
  then have same: "(cache s)(u := None) = cache s"
    by (simp add: fun_eq_iff)
  have "(\<lambda>k. if k \<in> {u} \<and> truthy (cache_get s k) then None else cache s k) = cache s"
    by (auto simp: fun_eq_iff cache_get_def None)
  then have "drop_truthy {u} s = s"
    by (simp add: drop_truthy_def)
  then show ?thesis
    by (simp add: purge_url_def cache_truthy_def purgeCache_def Let_def None same)
next
  case (Some v)
  then show ?thesis
    by (auto simp: purge_url_def cache_truthy_def drop_truthy_def purgeCache_def Let_def
        cache_get_def fun_eq_iff)
qed

lemma drop_truthy_twice: "drop_truthy V (drop_truthy U s) = drop_truthy (U \<union> V) s"
  by (auto simp: drop_truthy_def cache_get_def fun_eq_iff split: option.splits)

lemma drop_truthy_empty: "drop_truthy {} s = s"
  by (simp add: drop_truthy_def)

lemma fold_purge_url: "fold (purge_url net) us (s, out) = (drop_truthy (set us) s, out)"
proof (induction us arbitrary: s)
  case Nil
  show ?case by (simp add: drop_truthy_empty)
next
  case (Cons u us)
  show ?case by (simp add: purge_url_step Cons.IH drop_truthy_twice)
qed

lemma fold_paths:
  "fold (\<lambda>path. fold (purge_url net) (segments path)) ps (s, out) =
     (drop_truthy (\<Union>p\<in>set ps. set (segments p)) s, out)"
proof (induction ps arbitrary: s)
  case Nil
  show ?case by (simp add: drop_truthy_empty)
next
  case (Cons p ps)
  show ?case by (simp add: fold_purge_url Cons.IH drop_truthy_twice)
qed

lemma purge_closed_form:
  "purge i m net s =
     (case byId s i of
        None \<Rightarrow>
          if inherited i \<and> \<not> strict_eq JUndefined m then (s, [], Some TypeError)
          else (s, [], None)
      | Some d \<Rightarrow>
          if strict_eq (modified d) m then (s, [], None)
          else (drop_truthy (\<Union>p\<in>set (paths d). set (segments p)) s, [], None))"
  by (simp add: purge_def fold_paths split: option.splits)

lemma purge_inherited_throws:
  "byId s i = None \<Longrightarrow> inherited i \<Longrightarrow> m \<noteq> JUndefined \<Longrightarrow>
   purge i m net s = (s, [], Some TypeError)"
  by (auto simp: purge_closed_form strict_eq_def)

lemma add_inherited_throws:
  "truthy m \<Longrightarrow> \<not> suppressed s p \<Longrightarrow> byId s i = None \<Longrightarrow> inherited i \<Longrightarrow>
   add i m p html s = (s\<lparr>cache := (cache s)(p \<mapsto> html)\<rparr>, Some TypeError)"
  by (simp add: add_def Let_def)

lemma add_inherited_path: "inherited p \<Longrightarrow> add i m p html s = (s, None)"
  by (simp add: add_def suppressed_def)

lemma byId_drop_truthy: "byId (drop_truthy U s) = byId s"
  by (simp add: drop_truthy_def)

lemma cache_drop_truthy:
  "cache (drop_truthy U s) k = (if k \<in> U \<and> truthy (cache_get s k) then None else cache s k)"
  by (simp add: drop_truthy_def)

lemma drop_truthy_restore: "(drop_truthy U s)\<lparr>cache := cache s\<rparr> = s"
  by (simp add: drop_truthy_def)


subsection \<open>The example states\<close>

lemma doc_state_byId:
  "byId doc_state ''doc'' =
     Some \<lparr>paths = [''/a'', ''/a/b'', ''/a/b/c''], modified = JStr ''v1''\<rparr>"
  by (simp add: doc_state_def add_def init_def suppressed_def inherited_def set_add_def Let_def)

lemma blank_state_byId:
  "byId blank_state ''doc'' =
     Some \<lparr>paths = [''/a'', ''/a/b'', ''/a/b/c''], modified = JStr ''v1''\<rparr>"
  by (simp add: blank_state_def add_def init_def suppressed_def inherited_def set_add_def Let_def)

lemma doc_state_cache:
  "cache doc_state ''/a'' = Some (JStr ''<p>x</p>'')"
  "cache doc_state ''/a/b'' = Some (JStr ''<p>x</p>'')"
  "cache doc_state ''/a/b/c'' = Some (JStr ''<p>x</p>'')"
  by (simp_all add: doc_state_def add_def init_def suppressed_def inherited_def set_add_def
      Let_def)

lemma blank_state_cache:
  "cache blank_state ''/a'' = Some (JStr [])"
  "cache blank_state ''/a/b'' = Some (JStr ''<p>x</p>'')"
  "cache blank_state ''/a/b/c'' = Some (JStr ''<p>x</p>'')"
  by (simp_all add: blank_state_def add_def init_def suppressed_def inherited_def set_add_def
      Let_def)

lemma doc_state_instances: "instances doc_state = [''10.0.0.1'', ''10.0.0.2'']"
  by (simp add: doc_state_def add_def init_def suppressed_def inherited_def Let_def)

lemma first_state_fields:
  "byId first_state ''doc'' = Some \<lparr>paths = [''/a''], modified = JStr ''v1''\<rparr>"
  "cache first_state ''/a'' = Some (JStr ''<p>v1</p>'')"
  "noCache first_state = Map.empty"
  by (simp_all add: first_state_def add_def init_def suppressed_def inherited_def set_add_def
      Let_def)

lemma byId_purge: "byId (fst (purge i m net s)) = byId s"
  by (simp add: purge_closed_form byId_drop_truthy split: option.splits)

lemma noCache_purge: "noCache (fst (purge i m net s)) = noCache s"
  by (simp add: purge_closed_form drop_truthy_def split: option.splits)

lemma stale_state_fields:
  "byId stale_state ''doc'' = Some \<lparr>paths = [''/a''], modified = JStr ''v1''\<rparr>"
  "cache stale_state ''/a'' = Some (JStr ''<p>v2</p>'')"
  by (simp_all add: stale_state_def add_def suppressed_def inherited_def set_add_def Let_def
      byId_purge noCache_purge first_state_fields)

subsection \<open>The content index under \<open>purge\<close>\<close>

text \<open>
  Claim C2 says that a purge with a stamp different from the stored one replaces the
  record of the id, so that the stored stamp is the new one and the old paths are gone.
  The code keeps the record as it is, and this breaks what its comments say it does
  (line 11: \<open>byId\<close> holds the last modified stamp; line 65: items which have not changed
  are not purged). The run below shows it: the page \<open>/a\<close> of \<open>doc\<close> is added at stamp
  \<open>v1\<close>; the document changes and \<open>purge('doc', 'v2')\<close> removes the page, but the record
  still holds \<open>v1\<close> and the path; the page is rendered from \<open>v2\<close> and added again, and
  the record still holds \<open>v1\<close>; the same notification \<open>purge('doc', 'v2')\<close> then removes
  the page rendered from \<open>v2\<close>, although the document has not changed since.
\<close>

theorem purge_stale_stamp:
  "byId first_state ''doc'' = Some \<lparr>paths = [''/a''], modified = JStr ''v1''\<rparr> \<and>
   \<not> strict_eq (JStr ''v1'') (JStr ''v2'') \<and>
   byId (fst (purge ''doc'' (JStr ''v2'') all_ok first_state)) ''doc'' =
     Some \<lparr>paths = [''/a''], modified = JStr ''v1''\<rparr> \<and>
   cache (fst (purge ''doc'' (JStr ''v2'') all_ok first_state)) ''/a'' = None \<and>
   byId stale_state ''doc'' = Some \<lparr>paths = [''/a''], modified = JStr ''v1''\<rparr> \<and>
   cache stale_state ''/a'' = Some (JStr ''<p>v2</p>'') \<and>
   cache (fst (purge ''doc'' (JStr ''v2'') all_ok stale_state)) ''/a'' = None"
  by (simp add: byId_purge first_state_fields stale_state_fields purge_closed_form strict_eq_def
      byId_drop_truthy cache_drop_truthy cache_get_def segments_def upt_rec)



subsection \<open>The ancestors of a purged path\<close>

text \<open>
  With the empty string cached at \<open>/a\<close> (the page rendered to nothing), the entry at
  \<open>/a\<close> exists and is still there after the purge of \<open>doc\<close>: line 76 takes a falsy
  value for a missing entry.
\<close>

theorem purge_ancestors_counterexample:
  "byId blank_state ''doc'' =
     Some \<lparr>paths = [''/a'', ''/a/b'', ''/a/b/c''], modified = JStr ''v1''\<rparr> \<and>
   cache blank_state ''/a'' = Some (JStr []) \<and>
   cache blank_state ''/a/b'' \<noteq> None \<and>
   cache blank_state ''/a/b/c'' \<noteq> None \<and>
   \<not> strict_eq (JStr ''v1'') (JStr ''v2'') \<and>
   cache (fst (purge ''doc'' (JStr ''v2'') all_ok blank_state)) ''/a'' = Some (JStr [])"
  by (simp add: blank_state_byId blank_state_cache purge_closed_form strict_eq_def
      cache_drop_truthy cache_get_def)

text \<open>
  Claim C4, as amended: for an id whose record contains the path \<open>/a/b/c\<close>, \<open>purge\<close>
  with a stamp that is not \<open>===\<close> to the stored one removes the cache entries at \<open>/a\<close>,
  \<open>/a/b\<close> and \<open>/a/b/c\<close> whose value is truthy, and so for every cumulative prefix of
  every path of the record; an entry whose value is falsy, and every path that is no such
  prefix, keeps what it had. Nothing is sent to any peer, whatever the instance list
  holds, and nothing but the cache changes.
\<close>

theorem purge_ancestors:
  assumes "byId s i = Some d" and "\<not> strict_eq (modified d) m"
    and "''/a/b/c'' \<in> set (paths d)"
  shows "(\<forall>u \<in> {''/a'', ''/a/b'', ''/a/b/c''}.
            truthy (cache_get s u) \<longrightarrow> cache (fst (purge i m net s)) u = None) \<and>
         (\<forall>p \<in> set (paths d). \<forall>u \<in> set (segments p).
            truthy (cache_get s u) \<longrightarrow> cache (fst (purge i m net s)) u = None) \<and>
         (\<forall>u. \<not> truthy (cache_get s u) \<longrightarrow> cache (fst (purge i m net s)) u = cache s u) \<and>
         (\<forall>u. (\<forall>p \<in> set (paths d). u \<notin> set (segments p)) \<longrightarrow>
            cache (fst (purge i m net s)) u = cache s u) \<and>
         snd (purge i m net s) = ([], None) \<and>
         (fst (purge i m net s))\<lparr>cache := cache s\<rparr> = s"
proof -
  let ?U = "\<Union>p\<in>set (paths d). set (segments p)"
  have pf: "purge i m net s = (drop_truthy ?U s, [], None)"
    using assms(1,2) by (simp add: purge_closed_form)
  have "set (segments ''/a/b/c'') \<subseteq> ?U"
    using assms(3) by blast
  then have abc: "{''/a'', ''/a/b'', ''/a/b/c''} \<subseteq> ?U"
    by (simp add: segments_example)
  have 1: "\<forall>u \<in> {''/a'', ''/a/b'', ''/a/b/c''}.
            truthy (cache_get s u) \<longrightarrow> cache (fst (purge i m net s)) u = None"
    using abc by (auto simp: pf cache_drop_truthy)
  have 2: "\<forall>p \<in> set (paths d). \<forall>u \<in> set (segments p).
            truthy (cache_get s u) \<longrightarrow> cache (fst (purge i m net s)) u = None"
    by (auto simp: pf cache_drop_truthy)
  have 3: "\<forall>u. \<not> truthy (cache_get s u) \<longrightarrow> cache (fst (purge i m net s)) u = cache s u"
    by (simp add: pf cache_drop_truthy)
  have 4: "\<forall>u. (\<forall>p \<in> set (paths d). u \<notin> set (segments p)) \<longrightarrow>
            cache (fst (purge i m net s)) u = cache s u"
    by (auto simp: pf cache_drop_truthy)
  have 5: "snd (purge i m net s) = ([], None)"
    by (simp add: pf)
  have 6: "(fst (purge i m net s))\<lparr>cache := cache s\<rparr> = s"
    by (simp add: pf drop_truthy_restore)
  from 1 2 3 4 5 6 show ?thesis by blast
qed

theorem purge_ancestors_witness:
  "byId doc_state ''doc'' =
     Some \<lparr>paths = [''/a'', ''/a/b'', ''/a/b/c''], modified = JStr ''v1''\<rparr> \<and>
   \<not> strict_eq (JStr ''v1'') (JStr ''v2'') \<and>
   truthy (cache_get doc_state ''/a'') \<and>
   truthy (cache_get doc_state ''/a/b'') \<and>
   truthy (cache_get doc_state ''/a/b/c'') \<and>
   instances doc_state = [''10.0.0.1'', ''10.0.0.2''] \<and>
   cache (fst (purge ''doc'' (JStr ''v2'') all_ok doc_state)) ''/a'' = None \<and>
   cache (fst (purge ''doc'' (JStr ''v2'') all_ok doc_state)) ''/a/b'' = None \<and>
   cache (fst (purge ''doc'' (JStr ''v2'') all_ok doc_state)) ''/a/b/c'' = None \<and>
   snd (purge ''doc'' (JStr ''v2'') all_ok doc_state) = ([], None)"
proof -
  have ne: "\<not> strict_eq
      (modified \<lparr>paths = [''/a'', ''/a/b'', ''/a/b/c''], modified = JStr ''v1''\<rparr>) (JStr ''v2'')"
    by (simp add: strict_eq_def)
  have mem: "''/a/b/c'' \<in>
      set (paths \<lparr>paths = [''/a'', ''/a/b'', ''/a/b/c''], modified = JStr ''v1''\<rparr>)"
    by simp
  have t: "truthy (cache_get doc_state ''/a'')" "truthy (cache_get doc_state ''/a/b'')"
    "truthy (cache_get doc_state ''/a/b/c'')"
    by (simp_all add: cache_get_def doc_state_cache)
  from purge_ancestors [OF doc_state_byId ne mem, of all_ok] t doc_state_instances doc_state_byId
  show ?thesis by (simp add: strict_eq_def)
qed

subsection \<open>The timers of the suppressed paths\<close>

lemma timers_wf_cong:
  "noCache s' = noCache s \<Longrightarrow> timers s' = timers s \<Longrightarrow> next_timer s' = next_timer s \<Longrightarrow>
   timers_wf s' = timers_wf s"
  by (simp add: timers_wf_def)

lemma timers_wf_init: "timers_wf (init env)"
  by (simp add: timers_wf_def init_def)

lemma timers_wf_add: "timers_wf (fst (add i m p html s)) = timers_wf s"
  by (rule timers_wf_cong) (simp_all add: add_def Let_def split: option.splits)

lemma timers_wf_drop_truthy: "timers_wf (drop_truthy U s) = timers_wf s"
  by (rule timers_wf_cong) (simp_all add: drop_truthy_def)

lemma timers_wf_purge: "timers_wf (fst (purge i m net s)) = timers_wf s"
  by (simp add: purge_closed_form timers_wf_drop_truthy split: option.splits)

lemma timers_wf_updateInstances: "timers_wf (fst (updateInstances token api s)) = timers_wf s"
  by (rule timers_wf_cong)
    (simp_all add: updateInstances_def split: api_reply.splits option.splits)

lemma timers_wf_expire:
  assumes wf: "timers_wf s"
  shows "timers_wf (expire h s)"
proof (cases "timers s h")
  case None
  with wf show ?thesis by (simp add: expire_def)
next
  case (Some pm)
  obtain p ms where pm: "pm = (p, ms)" by (cases pm)
  from wf have A: "\<And>k. next_timer s \<le> k \<Longrightarrow> timers s k = None"
    and B: "\<And>k q n. timers s k = Some (q, n) \<Longrightarrow> noCache s q = Some k"
    and C: "\<And>q k. noCache s q = Some k \<Longrightarrow> \<exists>n. timers s k = Some (q, n)"
    unfolding timers_wf_def by blast+
  have st: "expire h s = s\<lparr>noCache := (noCache s)(p := None), timers := (timers s)(h := None)\<rparr>"
    by (simp add: expire_def Some pm)
  have a: "\<forall>k. next_timer (expire h s) \<le> k \<longrightarrow> timers (expire h s) k = None"
    by (simp add: st A)
  have b: "\<forall>k q n. timers (expire h s) k = Some (q, n) \<longrightarrow> noCache (expire h s) q = Some k"
  proof (intro allI impI)
    fix k q n assume t: "timers (expire h s) k = Some (q, n)"
    then have kh: "k \<noteq> h" and tk: "timers s k = Some (q, n)"
      by (auto simp: st split: if_splits)
    from B [OF tk] have nq: "noCache s q = Some k" .
    have "q \<noteq> p"
    proof
      assume "q = p"
      with nq B [of h p ms] Some pm kh show False by simp
    qed
    with nq show "noCache (expire h s) q = Some k" by (simp add: st)
  qed
  have c: "\<forall>q k. noCache (expire h s) q = Some k \<longrightarrow> (\<exists>n. timers (expire h s) k = Some (q, n))"
  proof (intro allI impI)
    fix q k assume nq: "noCache (expire h s) q = Some k"
    then have qp: "q \<noteq> p" and n0: "noCache s q = Some k"
      by (auto simp: st split: if_splits)
    from C [OF n0] obtain n where tk: "timers s k = Some (q, n)" by blast
    have "k \<noteq> h" using tk Some pm qp by auto
    with tk show "\<exists>n. timers (expire h s) k = Some (q, n)" by (simp add: st)
  qed
  from a b c show ?thesis unfolding timers_wf_def by blast
qed

lemma purgeCache_recursive:
  "truthy recurse \<Longrightarrow>
   purgeCache p pc recurse net s =
     \<lparr>st = s, sent = map (peer_request p pc) (instances s),
      cb_args = each_cb (map (\<lambda>rq. peer_result rq (net rq)) (map (peer_request p pc) (instances s)))\<rparr>"
  by (simp add: purgeCache_def Let_def)

lemma purgeCache_local_plain:
  "\<not> truthy recurse \<Longrightarrow> \<not> truthy pc \<Longrightarrow>
   purgeCache p pc recurse net s = \<lparr>st = s\<lparr>cache := (cache s)(p := None)\<rparr>, sent = [], cb_args = [None]\<rparr>"
  by (simp add: purgeCache_def Let_def)

lemma purgeCache_local_armed:
  "\<not> truthy recurse \<Longrightarrow> truthy pc \<Longrightarrow>
   purgeCache p pc recurse net s =
     \<lparr>st = s\<lparr>cache := (cache s)(p := None),
              noCache := (noCache s)(p \<mapsto> next_timer s),
              timers := ((case noCache s p of None \<Rightarrow> timers s | Some h \<Rightarrow> (timers s)(h := None)))
                          (next_timer s \<mapsto> (p, noCacheDelay s * 1000)),
              next_timer := Suc (next_timer s)\<rparr>,
      sent = [], cb_args = [None]\<rparr>"
  by (simp add: purgeCache_def Let_def)

lemma armed_fields:
  assumes nr: "\<not> truthy recurse" and tp: "truthy pc"
  shows "noCache (st (purgeCache p pc recurse net s)) = (noCache s)(p \<mapsto> next_timer s)"
    and "timers (st (purgeCache p pc recurse net s)) =
           ((case noCache s p of None \<Rightarrow> timers s | Some h \<Rightarrow> (timers s)(h := None)))
             (next_timer s \<mapsto> (p, noCacheDelay s * 1000))"
    and "next_timer (st (purgeCache p pc recurse net s)) = Suc (next_timer s)"
  by (simp_all add: purgeCache_local_armed [OF nr tp])

lemma armed_timers:
  assumes wf: "timers_wf s" and nr: "\<not> truthy recurse" and tp: "truthy pc"
  shows "timers (st (purgeCache p pc recurse net s)) k =
           (if k = next_timer s then Some (p, noCacheDelay s * 1000)
            else if noCache s p = Some k then None
            else timers s k)"
proof (cases "noCache s p")
  case None
  then show ?thesis by (simp add: armed_fields(2) [OF nr tp])
next
  case (Some h)
  then show ?thesis by (auto simp: armed_fields(2) [OF nr tp])
qed

lemma timers_wf_armed:
  assumes wf: "timers_wf s" and nr: "\<not> truthy recurse" and tp: "truthy pc"
  shows "timers_wf (st (purgeCache p pc recurse net s))"
proof -
  let ?s = "st (purgeCache p pc recurse net s)"
  from wf have A: "\<And>k. next_timer s \<le> k \<Longrightarrow> timers s k = None"
    and B: "\<And>k q n. timers s k = Some (q, n) \<Longrightarrow> noCache s q = Some k"
    and C: "\<And>q k. noCache s q = Some k \<Longrightarrow> \<exists>n. timers s k = Some (q, n)"
    unfolding timers_wf_def by blast+
  note T = armed_timers [OF wf nr tp]
  note N = armed_fields(1) [OF nr tp]
  note X = armed_fields(3) [OF nr tp]
  have fresh: "\<And>q. noCache s q \<noteq> Some (next_timer s)"
  proof
    fix q assume "noCache s q = Some (next_timer s)"
    from C [OF this] A [of "next_timer s"] show False by simp
  qed
  have a: "\<forall>k. next_timer ?s \<le> k \<longrightarrow> timers ?s k = None"
  proof (intro allI impI)
    fix k assume "next_timer ?s \<le> k"
    then have "Suc (next_timer s) \<le> k" by (simp add: X)
    then have "k \<noteq> next_timer s" and "timers s k = None" using A [of k] by simp_all
    then show "timers ?s k = None" by (simp add: T)
  qed
  have b: "\<forall>k q n. timers ?s k = Some (q, n) \<longrightarrow> noCache ?s q = Some k"
  proof (intro allI impI)
    fix k q n assume t: "timers ?s k = Some (q, n)"
    show "noCache ?s q = Some k"
    proof (cases "k = next_timer s")
      case True
      with t show ?thesis by (simp add: T N)
    next
      case False
      with t have np: "noCache s p \<noteq> Some k" and tk: "timers s k = Some (q, n)"
        by (auto simp: T split: if_splits)
      from B [OF tk] have nq: "noCache s q = Some k" .
      with np have "q \<noteq> p" by auto
      with nq show ?thesis by (simp add: N)
    qed
  qed
  have c: "\<forall>q k. noCache ?s q = Some k \<longrightarrow> (\<exists>n. timers ?s k = Some (q, n))"
  proof (intro allI impI)
    fix q k assume nq: "noCache ?s q = Some k"
    show "\<exists>n. timers ?s k = Some (q, n)"
    proof (cases "q = p")
      case True
      with nq have "k = next_timer s" by (simp add: N)
      with True show ?thesis by (simp add: T)
    next
      case False
      with nq have n0: "noCache s q = Some k" by (simp add: N)
      from C [OF n0] obtain n where tk: "timers s k = Some (q, n)" by blast
      have k1: "k \<noteq> next_timer s" using n0 fresh by auto
      have k2: "noCache s p \<noteq> Some k"
      proof
        assume "noCache s p = Some k"
        from C [OF this] tk False show False by auto
      qed
      from tk k1 k2 show ?thesis by (simp add: T)
    qed
  qed
  from a b c show ?thesis unfolding timers_wf_def by blast
qed

lemma timers_wf_purgeCache:
  assumes wf: "timers_wf s"
  shows "timers_wf (st (purgeCache p pc recurse net s))"
proof (cases "truthy recurse")
  case True
  with wf show ?thesis by (simp add: purgeCache_recursive)
next
  case nr: False
  show ?thesis
  proof (cases "truthy pc")
    case True
    from timers_wf_armed [OF wf nr True] show ?thesis .
  next
    case False
    have "timers_wf (st (purgeCache p pc recurse net s)) = timers_wf s"
      by (rule timers_wf_cong) (simp_all add: purgeCache_local_plain [OF nr False])
    with wf show ?thesis by simp
  qed
qed

subsection \<open>\<open>purgeCache\<close> and the middleware\<close>

lemma peer_result_None: "peer_result rq r = None \<longleftrightarrow> peer_ok r"
  by (cases r) (simp_all add: peer_result_def)

lemma each_cb_all_ok: "\<forall>x \<in> set rs. x = None \<Longrightarrow> each_cb rs = [None]"
  by (simp add: each_cb_def filter_empty_conv)

lemma each_cb_failure:
  assumes "\<exists>x \<in> set rs. x \<noteq> None"
  shows "each_cb rs \<noteq> [] \<and> (\<forall>a \<in> set (each_cb rs). \<exists>e. a = Some e)"
proof -
  from assms have ne: "filter (\<lambda>r. r \<noteq> None) rs \<noteq> []"
    by (simp add: filter_empty_conv)
  then show ?thesis by (auto simp: each_cb_def)
qed

lemma page_state_fields:
  "cache page_state ''/page'' = Some (JStr ''<p>hello</p>'')"
  "instances page_state = []"
  "noCache page_state = Map.empty"
  "kubeToken page_state = None"
  by (simp_all add: page_state_def init_def)

lemma fleet_state_fields:
  "cache fleet_state ''/page'' = Some (JStr ''<p>hello</p>'')"
  "instances fleet_state = [''10.0.0.1'', ''10.0.0.2'', ''10.0.0.3'']"
  "noCache fleet_state = Map.empty"
  "kubeToken fleet_state = None"
  by (simp_all add: fleet_state_def page_state_def init_def)

lemma fleet_state_wf: "timers_wf fleet_state"
proof -
  have "timers_wf fleet_state = timers_wf (init None)"
    by (rule timers_wf_cong) (simp_all add: fleet_state_def page_state_def)
  then show ?thesis by (simp add: timers_wf_init)
qed

lemma armed_state_wf: "timers_wf armed_state"
  unfolding armed_state_def by (rule timers_wf_purgeCache [OF fleet_state_wf])

lemma armed_state_fields:
  "noCache armed_state ''/page'' = Some 0"
  "next_timer armed_state = 1"
  "timers armed_state 0 = Some (''/page'', 3600000)"
  by (simp_all add: armed_state_def purgeCache_def Let_def fleet_state_def page_state_def
      init_def noCacheDelay_def)

lemma recurse_req_fields:
  "path recurse_req = ''/page''" "q_purge recurse_req = JStr ''1''"
  "q_edit recurse_req = JUndefined" "q_recurse recurse_req = JStr ''1''"
  by (simp_all add: recurse_req_def)

lemma edit_req_fields:
  "path edit_req = ''/page''" "q_purge edit_req = JUndefined"
  "q_edit edit_req = JStr ''1''" "q_recurse edit_req = JUndefined"
  by (simp_all add: edit_req_def)

text \<open>
  A purge of \<open>/page\<close> with \<open>recurse\<close> set, on a node that knows no peers: the callback
  gets \<open>null\<close>, and the page is still in the local cache. Line 137 returns from
  \<open>purgeCache\<close> before line 173 is reached.
\<close>

theorem purgeCache_recursive_counterexample:
  "truthy (JStr ''1'') \<and> instances page_state = [] \<and>
   cb_args (purgeCache ''/page'' JUndefined (JStr ''1'') all_ok page_state) = [None] \<and>
   cache (st (purgeCache ''/page'' JUndefined (JStr ''1'') all_ok page_state)) ''/page'' =
     Some (JStr ''<p>hello</p>'')"
  by (simp add: purgeCache_recursive page_state_fields each_cb_def)

text \<open>
  Claim C1, as amended: a call of \<open>purgeCache\<close> without \<open>recurse\<close> deletes the local
  cache entry of the path, whatever \<open>preventCache\<close> is, leaves the other entries, sends
  nothing and calls back with \<open>null\<close>. A call with \<open>recurse\<close> leaves the whole local
  state as it was and sends one request to each address of the instance list; the local
  entry goes only when one of those requests comes back to this node. With an empty
  instance list the recursive call succeeds, sends nothing and changes nothing.
\<close>

theorem purgeCache_local_delete:
  "(\<not> truthy recurse \<longrightarrow>
      cache (st (purgeCache p pc recurse net s)) p = None \<and>
      (\<forall>k. k \<noteq> p \<longrightarrow> cache (st (purgeCache p pc recurse net s)) k = cache s k) \<and>
      sent (purgeCache p pc recurse net s) = [] \<and>
      cb_args (purgeCache p pc recurse net s) = [None]) \<and>
   (truthy recurse \<longrightarrow>
      st (purgeCache p pc recurse net s) = s \<and>
      sent (purgeCache p pc recurse net s) = map (peer_request p pc) (instances s)) \<and>
   (truthy recurse \<and> instances s = [] \<longrightarrow>
      purgeCache p pc recurse net s = \<lparr>st = s, sent = [], cb_args = [None]\<rparr>)"
  by (simp add: purgeCache_def Let_def each_cb_def)

theorem purgeCache_local_delete_witness:
  "\<not> truthy JUndefined \<and>
   cache (st (purgeCache ''/page'' JUndefined JUndefined all_ok fleet_state)) ''/page'' = None \<and>
   truthy (JStr ''1'') \<and>
   st (purgeCache ''/page'' JUndefined (JStr ''1'') all_ok fleet_state) = fleet_state \<and>
   instances page_state = [] \<and>
   purgeCache ''/page'' JUndefined (JStr ''1'') all_ok page_state =
     \<lparr>st = page_state, sent = [], cb_args = [None]\<rparr>"
proof -
  have a: "\<not> truthy JUndefined" and b: "truthy (JStr ''1'')" by simp_all
  from purgeCache_local_delete [where recurse = JUndefined and p = "''/page''" and pc = JUndefined
         and net = all_ok and s = fleet_state]
       purgeCache_local_delete [where recurse = "JStr ''1''" and p = "''/page''" and pc = JUndefined
         and net = all_ok and s = fleet_state]
       purgeCache_local_delete [where recurse = "JStr ''1''" and p = "''/page''" and pc = JUndefined
         and net = all_ok and s = page_state]
  show ?thesis using a b page_state_fields(2) by simp
qed

text \<open>
  A purge of \<open>/page\<close> with both \<open>preventCache\<close> and \<open>recurse\<close> set: the path is not
  suppressed on this node after the call.
\<close>

theorem purgeCache_suppress_counterexample:
  "truthy (JStr ''1'') \<and> \<not> suppressed fleet_state ''/page'' \<and>
   \<not> suppressed (st (purgeCache ''/page'' (JStr ''1'') (JStr ''1'') all_ok fleet_state)) ''/page''"
  by (simp add: purgeCache_recursive suppressed_def inherited_def fleet_state_fields)

text \<open>
  Claim C7, as amended: a call of \<open>purgeCache\<close> with \<open>preventCache\<close> set and \<open>recurse\<close>
  not set suppresses the path locally: \<open>noCache\<close> holds a new timer for it, that timer
  is the only pending one for the path, set with the delay \<open>noCacheDelay\<close> in
  milliseconds, a timer the path had before is no longer pending, and the other paths
  keep their suppression. With \<open>recurse\<close> set the call leaves the local suppression as it
  was and passes \<open>edit=1\<close> in the request to each peer instead.
\<close>

theorem purgeCache_suppress:
  assumes "truthy pc"
  shows "(\<not> truthy recurse \<and> timers_wf s \<longrightarrow>
            suppressed (st (purgeCache p pc recurse net s)) p \<and>
            noCache (st (purgeCache p pc recurse net s)) p = Some (next_timer s) \<and>
            (\<forall>h ms. timers (st (purgeCache p pc recurse net s)) h = Some (p, ms) \<longleftrightarrow>
                      h = next_timer s \<and> ms = noCacheDelay s * 1000) \<and>
            (\<forall>h. noCache s p = Some h \<longrightarrow> timers (st (purgeCache p pc recurse net s)) h = None) \<and>
            (\<forall>q. q \<noteq> p \<longrightarrow> noCache (st (purgeCache p pc recurse net s)) q = noCache s q) \<and>
            timers_wf (st (purgeCache p pc recurse net s))) \<and>
         (truthy recurse \<longrightarrow>
            st (purgeCache p pc recurse net s) = s \<and>
            length (sent (purgeCache p pc recurse net s)) = length (instances s) \<and>
            (\<forall>rq \<in> set (sent (purgeCache p pc recurse net s)). (''edit'', 1) \<in> set (qs rq)))"
proof -
  have rec: "truthy recurse \<longrightarrow>
            st (purgeCache p pc recurse net s) = s \<and>
            length (sent (purgeCache p pc recurse net s)) = length (instances s) \<and>
            (\<forall>rq \<in> set (sent (purgeCache p pc recurse net s)). (''edit'', 1) \<in> set (qs rq))"
    using assms by (auto simp: purgeCache_recursive peer_request_def)
  have loc: "\<not> truthy recurse \<and> timers_wf s \<longrightarrow>
            suppressed (st (purgeCache p pc recurse net s)) p \<and>
            noCache (st (purgeCache p pc recurse net s)) p = Some (next_timer s) \<and>
            (\<forall>h ms. timers (st (purgeCache p pc recurse net s)) h = Some (p, ms) \<longleftrightarrow>
                      h = next_timer s \<and> ms = noCacheDelay s * 1000) \<and>
            (\<forall>h. noCache s p = Some h \<longrightarrow> timers (st (purgeCache p pc recurse net s)) h = None) \<and>
            (\<forall>q. q \<noteq> p \<longrightarrow> noCache (st (purgeCache p pc recurse net s)) q = noCache s q) \<and>
            timers_wf (st (purgeCache p pc recurse net s))"
  proof (intro impI)
    assume h: "\<not> truthy recurse \<and> timers_wf s"
    then have nr: "\<not> truthy recurse" and wf: "timers_wf s" by simp_all
    let ?s = "st (purgeCache p pc recurse net s)"
    note T = armed_timers [OF wf nr assms]
    note N = armed_fields(1) [OF nr assms]
    from wf have A: "\<And>k. next_timer s \<le> k \<Longrightarrow> timers s k = None"
      and B: "\<And>k q n. timers s k = Some (q, n) \<Longrightarrow> noCache s q = Some k"
      and C: "\<And>q k. noCache s q = Some k \<Longrightarrow> \<exists>n. timers s k = Some (q, n)"
      unfolding timers_wf_def by blast+
    have fresh: "noCache s p \<noteq> Some (next_timer s)"
    proof
      assume "noCache s p = Some (next_timer s)"
      from C [OF this] A [of "next_timer s"] show False by simp
    qed
    have 1: "suppressed ?s p" by (simp add: suppressed_def N)
    have 2: "noCache ?s p = Some (next_timer s)" by (simp add: N)
    have 3: "\<forall>h ms. timers ?s h = Some (p, ms) \<longleftrightarrow> h = next_timer s \<and> ms = noCacheDelay s * 1000"
    proof (intro allI)
      fix h ms
      show "timers ?s h = Some (p, ms) \<longleftrightarrow> h = next_timer s \<and> ms = noCacheDelay s * 1000"
      proof (cases "h = next_timer s")
        case True
        then show ?thesis by (auto simp: T)
      next
        case False
        have "timers ?s h \<noteq> Some (p, ms)"
        proof
          assume t: "timers ?s h = Some (p, ms)"
          with False have np: "noCache s p \<noteq> Some h" and tk: "timers s h = Some (p, ms)"
            by (auto simp: T split: if_splits)
          from B [OF tk] np show False by simp
        qed
        with False show ?thesis by simp
      qed
    qed
    have 4: "\<forall>h. noCache s p = Some h \<longrightarrow> timers ?s h = None"
      using fresh by (auto simp: T)
    have 5: "\<forall>q. q \<noteq> p \<longrightarrow> noCache ?s q = noCache s q" by (simp add: N)
    have 6: "timers_wf ?s" by (rule timers_wf_armed [OF wf nr assms])
    from 1 2 3 4 5 6 show "suppressed ?s p \<and> noCache ?s p = Some (next_timer s) \<and>
            (\<forall>h ms. timers ?s h = Some (p, ms) \<longleftrightarrow> h = next_timer s \<and> ms = noCacheDelay s * 1000) \<and>
            (\<forall>h. noCache s p = Some h \<longrightarrow> timers ?s h = None) \<and>
            (\<forall>q. q \<noteq> p \<longrightarrow> noCache ?s q = noCache s q) \<and>
            timers_wf ?s" by blast
  qed
  from loc rec show ?thesis by blast
qed

theorem purgeCache_suppress_witness:
  "truthy (JStr ''1'') \<and> \<not> truthy JUndefined \<and>
   noCache armed_state ''/page'' = Some 0 \<and>
   timers armed_state 0 = Some (''/page'', 3600000) \<and>
   noCache (st (purgeCache ''/page'' (JStr ''1'') JUndefined all_ok armed_state)) ''/page'' = Some 1 \<and>
   timers (st (purgeCache ''/page'' (JStr ''1'') JUndefined all_ok armed_state)) 0 = None \<and>
   st (purgeCache ''/page'' (JStr ''1'') (JStr ''1'') all_ok fleet_state) = fleet_state \<and>
   sent (purgeCache ''/page'' (JStr ''1'') (JStr ''1'') all_ok fleet_state) \<noteq> [] \<and>
   (''edit'', 1) \<in> set (qs (hd (sent (purgeCache ''/page'' (JStr ''1'') (JStr ''1'') all_ok fleet_state))))"
proof -
  have t: "truthy (JStr ''1'')" and f: "\<not> truthy JUndefined" by simp_all
  have ne: "sent (purgeCache ''/page'' (JStr ''1'') (JStr ''1'') all_ok fleet_state) \<noteq> []"
    by (simp add: purgeCache_recursive fleet_state_fields)
  from purgeCache_suppress [OF t, where recurse = JUndefined and s = armed_state
         and p = "''/page''" and net = all_ok]
       purgeCache_suppress [OF t, where recurse = "JStr ''1''" and s = fleet_state
         and p = "''/page''" and net = all_ok]
  show ?thesis
    using t f armed_state_wf armed_state_fields ne by simp
qed

lemma cb_args_recursive:
  "truthy recurse \<Longrightarrow>
   cb_args (purgeCache p pc recurse net s) =
     each_cb (map (\<lambda>i. peer_result (peer_request p pc i) (net (peer_request p pc i))) (instances s))"
  by (simp add: purgeCache_recursive comp_def)

lemma middleware_purge:
  "truthy (q_purge rq) \<or> truthy (q_edit rq) \<Longrightarrow>
   middleware rq net s =
     \<lparr>mw_st = st (purgeCache (path rq) (q_edit rq) (q_recurse rq) net s),
      mw_sent = sent (purgeCache (path rq) (q_edit rq) (q_recurse rq) net s),
      mw_res = map (\<lambda>a. case a of
                           Some e \<Rightarrow> (Send500 e, (case kubeToken s of None \<Rightarrow> False | Some t \<Rightarrow> t \<noteq> []))
                         | None \<Rightarrow> (EndOK, False))
                   (cb_args (purgeCache (path rq) (q_edit rq) (q_recurse rq) net s))\<rparr>"
  by (simp add: middleware_def Let_def)

text \<open>
  Claim C6: in a purge with \<open>recurse\<close> set, if any peer of the instance list answers
  with a status other than 200 or with a transport error, the callback gets an error,
  whichever request finishes first, and the middleware answers 500 with it; when every
  peer answers 200 the callback gets \<open>null\<close> and the middleware answers \<open>OK\<close>.
\<close>

theorem fanout_first_failure:
  assumes "truthy recurse"
  shows "((\<exists>i \<in> set (instances s). \<not> peer_ok (net (peer_request p pc i))) \<longrightarrow>
            cb_args (purgeCache p pc recurse net s) \<noteq> [] \<and>
            (\<forall>a \<in> set (cb_args (purgeCache p pc recurse net s)). \<exists>e. a = Some e)) \<and>
         ((\<forall>i \<in> set (instances s). peer_ok (net (peer_request p pc i))) \<longrightarrow>
            cb_args (purgeCache p pc recurse net s) = [None]) \<and>
         (\<forall>rq. path rq = p \<and> q_edit rq = pc \<and> q_recurse rq = recurse \<and>
               (truthy (q_purge rq) \<or> truthy (q_edit rq)) \<longrightarrow>
            ((\<exists>i \<in> set (instances s). \<not> peer_ok (net (peer_request p pc i))) \<longrightarrow>
               mw_res (middleware rq net s) \<noteq> [] \<and>
               (\<forall>x \<in> set (mw_res (middleware rq net s)). \<exists>e. fst x = Send500 e)) \<and>
            ((\<forall>i \<in> set (instances s). peer_ok (net (peer_request p pc i))) \<longrightarrow>
               mw_res (middleware rq net s) = [(EndOK, False)]))"
proof -
  let ?rs = "map (\<lambda>i. peer_result (peer_request p pc i) (net (peer_request p pc i))) (instances s)"
  let ?cb = "cb_args (purgeCache p pc recurse net s)"
  have cb: "?cb = each_cb ?rs"
    using assms by (rule cb_args_recursive)
  have fail: "(\<exists>i \<in> set (instances s). \<not> peer_ok (net (peer_request p pc i))) \<longrightarrow>
            ?cb \<noteq> [] \<and> (\<forall>a \<in> set ?cb. \<exists>e. a = Some e)"
  proof
    assume "\<exists>i \<in> set (instances s). \<not> peer_ok (net (peer_request p pc i))"
    then obtain i where i: "i \<in> set (instances s)"
      and bad: "\<not> peer_ok (net (peer_request p pc i))" by blast
    from bad have ne: "peer_result (peer_request p pc i) (net (peer_request p pc i)) \<noteq> None"
      by (simp add: peer_result_None)
    have "peer_result (peer_request p pc i) (net (peer_request p pc i)) \<in> set ?rs"
      using i by (simp add: image_iff) blast
    with ne have "\<exists>x \<in> set ?rs. x \<noteq> None" by blast
    from each_cb_failure [OF this] show "?cb \<noteq> [] \<and> (\<forall>a \<in> set ?cb. \<exists>e. a = Some e)"
      by (simp add: cb)
  qed
  have ok: "(\<forall>i \<in> set (instances s). peer_ok (net (peer_request p pc i))) \<longrightarrow> ?cb = [None]"
  proof
    assume "\<forall>i \<in> set (instances s). peer_ok (net (peer_request p pc i))"
    then have "\<forall>x \<in> set ?rs. x = None"
      by (auto simp: peer_result_None)
    from each_cb_all_ok [OF this] show "?cb = [None]" by (simp add: cb)
  qed
  have mw: "\<forall>rq. path rq = p \<and> q_edit rq = pc \<and> q_recurse rq = recurse \<and>
               (truthy (q_purge rq) \<or> truthy (q_edit rq)) \<longrightarrow>
            ((\<exists>i \<in> set (instances s). \<not> peer_ok (net (peer_request p pc i))) \<longrightarrow>
               mw_res (middleware rq net s) \<noteq> [] \<and>
               (\<forall>x \<in> set (mw_res (middleware rq net s)). \<exists>e. fst x = Send500 e)) \<and>
            ((\<forall>i \<in> set (instances s). peer_ok (net (peer_request p pc i))) \<longrightarrow>
               mw_res (middleware rq net s) = [(EndOK, False)])"
  proof (intro allI impI)
    fix rq :: req
    assume h: "path rq = p \<and> q_edit rq = pc \<and> q_recurse rq = recurse \<and>
               (truthy (q_purge rq) \<or> truthy (q_edit rq))"
    then have pg: "truthy (q_purge rq) \<or> truthy (q_edit rq)" by blast
    have res: "mw_res (middleware rq net s) =
        map (\<lambda>a. case a of
                    Some e \<Rightarrow> (Send500 e, (case kubeToken s of None \<Rightarrow> False | Some t \<Rightarrow> t \<noteq> []))
                  | None \<Rightarrow> (EndOK, False)) ?cb"
      using h by (simp add: middleware_purge [OF pg])
    show "((\<exists>i \<in> set (instances s). \<not> peer_ok (net (peer_request p pc i))) \<longrightarrow>
               mw_res (middleware rq net s) \<noteq> [] \<and>
               (\<forall>x \<in> set (mw_res (middleware rq net s)). \<exists>e. fst x = Send500 e)) \<and>
            ((\<forall>i \<in> set (instances s). peer_ok (net (peer_request p pc i))) \<longrightarrow>
               mw_res (middleware rq net s) = [(EndOK, False)])"
      using fail ok unfolding res by auto
  qed
  from fail ok mw show ?thesis by blast
qed

theorem fanout_first_failure_witness:
  "truthy (JStr ''1'') \<and>
   ''10.0.0.2'' \<in> set (instances fleet_state) \<and>
   \<not> peer_ok (one_down (peer_request ''/page'' JUndefined ''10.0.0.2'')) \<and>
   peer_ok (one_down (peer_request ''/page'' JUndefined ''10.0.0.1'')) \<and>
   peer_ok (one_down (peer_request ''/page'' JUndefined ''10.0.0.3'')) \<and>
   cb_args (purgeCache ''/page'' JUndefined (JStr ''1'') one_down fleet_state) =
     [Some (PurgeStatus ''http://10.0.0.2:3000/page'' 503)] \<and>
   mw_res (middleware recurse_req one_down fleet_state) =
     [(Send500 (PurgeStatus ''http://10.0.0.2:3000/page'' 503), False)] \<and>
   peer_ok (all_ok (peer_request ''/page'' JUndefined ''10.0.0.1'')) \<and>
   peer_ok (all_ok (peer_request ''/page'' JUndefined ''10.0.0.2'')) \<and>
   peer_ok (all_ok (peer_request ''/page'' JUndefined ''10.0.0.3'')) \<and>
   cb_args (purgeCache ''/page'' JUndefined (JStr ''1'') all_ok fleet_state) = [None] \<and>
   mw_res (middleware recurse_req all_ok fleet_state) = [(EndOK, False)]"
proof -
  have t: "truthy (JStr ''1'')" by simp
  have down: "\<not> peer_ok (one_down (peer_request ''/page'' JUndefined ''10.0.0.2''))"
    "peer_ok (one_down (peer_request ''/page'' JUndefined ''10.0.0.1''))"
    "peer_ok (one_down (peer_request ''/page'' JUndefined ''10.0.0.3''))"
    by (simp_all add: one_down_def peer_request_def)
  have up: "\<forall>i \<in> set (instances fleet_state). peer_ok (all_ok (peer_request ''/page'' JUndefined i))"
    by (simp add: all_ok_def)
  have cb: "cb_args (purgeCache ''/page'' JUndefined (JStr ''1'') one_down fleet_state) =
     [Some (PurgeStatus ''http://10.0.0.2:3000/page'' 503)]"
    by (simp add: purgeCache_recursive fleet_state_fields each_cb_def peer_result_def
        one_down_def peer_request_def)
  have mw: "mw_res (middleware recurse_req one_down fleet_state) =
     [(Send500 (PurgeStatus ''http://10.0.0.2:3000/page'' 503), False)]"
    by (simp add: middleware_purge recurse_req_fields cb fleet_state_fields)
  from fanout_first_failure [OF t, where s = fleet_state and net = one_down
         and p = "''/page''" and pc = JUndefined]
       fanout_first_failure [OF t, where s = fleet_state and net = all_ok
         and p = "''/page''" and pc = JUndefined]
  show ?thesis
    using t down up cb mw recurse_req_fields by (simp add: fleet_state_fields)
qed

text \<open>
  The request \<open>GET /page?edit=1\<close> on a node that knows three peers: no request is
  sent to any of them.
\<close>

theorem edit_without_recurse_counterexample:
  "truthy (q_edit edit_req) \<and> q_recurse edit_req = JUndefined \<and>
   instances fleet_state = [''10.0.0.1'', ''10.0.0.2'', ''10.0.0.3''] \<and>
   mw_sent (middleware edit_req all_ok fleet_state) = []"
  by (simp add: edit_req_def middleware_def Let_def purgeCache_def fleet_state_fields)

text \<open>
  Claim C8, as amended: for a request whose query has a truthy \<open>edit\<close>, the purge fans
  out exactly when the query also has a truthy \<open>recurse\<close>: then one request goes to each
  peer of the instance list, carrying \<open>purge=1\<close> and \<open>edit=1\<close>, and the local state is
  left as it was. Without \<open>recurse\<close> nothing is sent: the path is purged and suppressed
  on this node only, and the answer is \<open>OK\<close>.
\<close>

theorem edit_fanout:
  assumes "truthy (q_edit rq)"
  shows "mw_sent (middleware rq net s) =
           (if truthy (q_recurse rq)
            then map (peer_request (path rq) (q_edit rq)) (instances s) else []) \<and>
         (truthy (q_recurse rq) \<longrightarrow>
            mw_st (middleware rq net s) = s \<and>
            (\<forall>r \<in> set (mw_sent (middleware rq net s)). qs r = [(''purge'', 1), (''edit'', 1)])) \<and>
         (\<not> truthy (q_recurse rq) \<longrightarrow>
            cache (mw_st (middleware rq net s)) (path rq) = None \<and>
            suppressed (mw_st (middleware rq net s)) (path rq) \<and>
            noCache (mw_st (middleware rq net s)) (path rq) = Some (next_timer s) \<and>
            mw_res (middleware rq net s) = [(EndOK, False)])"
  using assms
  by (auto simp: middleware_def Let_def purgeCache_def peer_request_def suppressed_def)

theorem edit_fanout_witness:
  "truthy (q_edit edit_req) \<and> \<not> truthy (q_recurse edit_req) \<and>
   mw_sent (middleware edit_req all_ok fleet_state) = [] \<and>
   cache (mw_st (middleware edit_req all_ok fleet_state)) ''/page'' = None \<and>
   suppressed (mw_st (middleware edit_req all_ok fleet_state)) ''/page'' \<and>
   noCache (mw_st (middleware edit_req all_ok fleet_state)) ''/page'' = Some 0 \<and>
   truthy (q_edit (edit_req\<lparr>q_recurse := JStr ''1''\<rparr>)) \<and>
   truthy (q_recurse (edit_req\<lparr>q_recurse := JStr ''1''\<rparr>)) \<and>
   mw_sent (middleware (edit_req\<lparr>q_recurse := JStr ''1''\<rparr>) all_ok fleet_state) =
     map (peer_request ''/page'' (JStr ''1'')) [''10.0.0.1'', ''10.0.0.2'', ''10.0.0.3''] \<and>
   mw_st (middleware (edit_req\<lparr>q_recurse := JStr ''1''\<rparr>) all_ok fleet_state) = fleet_state"
proof -
  have a: "truthy (q_edit edit_req)" "\<not> truthy (q_recurse edit_req)"
    by (simp_all add: edit_req_fields)
  have b: "truthy (q_edit (edit_req\<lparr>q_recurse := JStr ''1''\<rparr>))"
    "truthy (q_recurse (edit_req\<lparr>q_recurse := JStr ''1''\<rparr>))"
    by (simp_all add: edit_req_fields)
  from edit_fanout [OF a(1), where net = all_ok and s = fleet_state]
       edit_fanout [OF b(1), where net = all_ok and s = fleet_state]
  show ?thesis
    using a b
    by (simp add: edit_req_fields fleet_state_fields fleet_state_def page_state_def init_def)
qed

subsection \<open>\<open>add\<close>\<close>



subsection \<open>\<open>updateInstances\<close>\<close>

text \<open>
  Claim C9: when the orchestration API answers 200 with a list of pods, the instance
  list becomes the list of their addresses and nothing else changes; on a transport error
  or a status other than 200 the state, and so the instance list, is left as it was and
  the callback gets the error.
\<close>

theorem updateInstances_spec:
  "(\<forall>ips. api token = ApiResponse 200 (Some ips) \<longrightarrow>
      updateInstances token api s = (s\<lparr>instances := ips\<rparr>, CbOk ips)) \<and>
   (\<forall>e. api token = ApiError e \<longrightarrow> updateInstances token api s = (s, CbErr (Transport e))) \<and>
   (\<forall>code body. api token = ApiResponse code body \<and> code \<noteq> 200 \<longrightarrow>
      updateInstances token api s = (s, CbErr (UpdateStatus code)))"
  by (simp add: updateInstances_def)

theorem updateInstances_spec_witness:
  "api_ok ''t'' = ApiResponse 200 (Some [''10.0.0.7'', ''10.0.0.8'']) \<and>
   instances (fst (updateInstances ''t'' api_ok fleet_state)) = [''10.0.0.7'', ''10.0.0.8''] \<and>
   api_unreachable ''t'' = ApiError ''ECONNREFUSED'' \<and>
   fst (updateInstances ''t'' api_unreachable fleet_state) = fleet_state \<and>
   api_down ''t'' = ApiResponse 503 None \<and> (503::int) \<noteq> 200 \<and>
   fst (updateInstances ''t'' api_down fleet_state) = fleet_state \<and>
   instances fleet_state = [''10.0.0.1'', ''10.0.0.2'', ''10.0.0.3'']"
proof -
  have a: "api_ok ''t'' = ApiResponse 200 (Some [''10.0.0.7'', ''10.0.0.8''])"
    by (simp add: api_ok_def)
  have b: "api_unreachable ''t'' = ApiError ''ECONNREFUSED''"
    by (simp add: api_unreachable_def)
  have c: "api_down ''t'' = ApiResponse 503 None"
    by (simp add: api_down_def)
  from updateInstances_spec [where api = api_ok and token = "''t''" and s = fleet_state]
       updateInstances_spec [where api = api_unreachable and token = "''t''" and s = fleet_state]
       updateInstances_spec [where api = api_down and token = "''t''" and s = fleet_state]
  show ?thesis using a b c by (simp add: fleet_state_fields)
qed

subsection \<open>A falsy payload\<close>

text \<open>
  Claim C10: a call of \<open>add\<close> with a truthy stamp, a path that is not suppressed and a
  falsy html stores that html in the cache, and the middleware, asked for that path
  without \<open>purge\<close> or \<open>edit\<close>, calls \<open>next()\<close> and changes nothing, as it does when the
  cache has no entry for the path.
\<close>

theorem falsy_payload:
  assumes "truthy m" and "\<not> suppressed s p" and "\<not> truthy html"
    and "path rq = p" and "\<not> truthy (q_purge rq)" and "\<not> truthy (q_edit rq)"
  shows "cache (fst (add i m p html s)) p = Some html \<and>
         middleware rq net (fst (add i m p html s)) =
           \<lparr>mw_st = fst (add i m p html s), mw_sent = [], mw_res = [(Next, False)]\<rparr> \<and>
         mw_res (middleware rq net
                  ((fst (add i m p html s))
                     \<lparr>cache := (cache (fst (add i m p html s)))(p := None)\<rparr>)) =
           [(Next, False)]"
  using assms
  by (simp add: add_def Let_def middleware_def cache_get_def split: option.splits)

theorem falsy_payload_witness:
  "truthy (JStr ''v1'') \<and> \<not> suppressed page_state ''/page'' \<and> \<not> truthy (JStr []) \<and>
   path plain_req = ''/page'' \<and> \<not> truthy (q_purge plain_req) \<and> \<not> truthy (q_edit plain_req) \<and>
   mw_res (middleware plain_req all_ok page_state) = [(EndHit (JStr ''<p>hello</p>''), False)] \<and>
   cache (fst (add ''doc'' (JStr ''v1'') ''/page'' (JStr []) page_state)) ''/page'' =
     Some (JStr []) \<and>
   mw_res (middleware plain_req all_ok
            (fst (add ''doc'' (JStr ''v1'') ''/page'' (JStr []) page_state))) =
     [(Next, False)]"
proof -
  have a: "truthy (JStr ''v1'')" and b: "\<not> truthy (JStr [])" by simp_all
  have c: "\<not> suppressed page_state ''/page''"
    by (simp add: suppressed_def inherited_def page_state_def init_def)
  have d: "path plain_req = ''/page''" "\<not> truthy (q_purge plain_req)"
    "\<not> truthy (q_edit plain_req)"
    by (simp_all add: plain_req_def)
  have e: "mw_res (middleware plain_req all_ok page_state) =
      [(EndHit (JStr ''<p>hello</p>''), False)]"
    by (simp add: middleware_def Let_def cache_get_def page_state_fields d)
  from falsy_payload [OF a c b d, where i = "''doc''" and net = all_ok]
  show ?thesis using a b c d e by simp
qed

end
